theory Spec2Isabelle
  imports Main
begin

section \<open>The chat server of \<open>server.py\<close>\<close>

text \<open>
  The server keeps one \<open>Client\<close> object per connection and a dictionary
  \<open>Server.clients\<close> from client objects to display names. The model below is
  sequential: one method call is one function from the server state to the new
  state and an outcome. Exceptions are outcomes, and the state that an aborted
  call leaves behind is kept, as in Python.
\<close>

subsection \<open>Text\<close>

text \<open>
  A Python \<open>str\<close> is modelled as a \<open>string\<close>; a character stands for the code
  point of the same number, so the model covers the code points below 256.
  Encoding to and decoding from UTF-8 are the identity on such text; bytes
  that do not decode are a separate receive event below.
\<close>

definition ESC :: char where "ESC = CHR 0x1B"
definition LF :: char where "LF = CHR 0x0A"
definition CR :: char where "CR = CHR 0x0D"

text \<open>\<open>str.isspace\<close> on the code points below 256.\<close>

definition isspace :: "char \<Rightarrow> bool" where
  "isspace c = (of_char c \<in> {9, 10, 11, 12, 13, 28, 29, 30, 31, 32, 133, 160 :: nat})"

text \<open>\<open>str.strip()\<close> removes leading and trailing whitespace.\<close>

definition strip :: "string \<Rightarrow> string" where
  "strip s = rev (dropWhile isspace (rev (dropWhile isspace s)))"

text \<open>\<open>pat in s\<close> on strings: \<open>pat\<close> occurs as a contiguous substring.\<close>

fun str_in :: "string \<Rightarrow> string \<Rightarrow> bool" where
  "str_in pat [] = (pat = [])"
| "str_in pat (c # cs) = (take (length pat) (c # cs) = pat \<or> str_in pat cs)"

subsection \<open>Outcomes\<close>

datatype py_error =
    OSError nat            \<comment> \<open>\<open>socket.error\<close>, with \<open>e.args[0]\<close>\<close>
  | KeyError
  | AttributeError
  | UnicodeDecodeError

text \<open>
  A call returns, raises, or never returns because it waits in \<open>socket.recv\<close>
  or \<open>socket.accept\<close> for input that the finite script does not hold.
\<close>

datatype 'a outcome = Ret 'a | Raise py_error | Blocked

definition EPIPE :: nat where "EPIPE = 32"

subsection \<open>Sockets\<close>

text \<open>
  A connected socket: whether \<open>close()\<close> was called on it, the payloads that
  \<open>send\<close> accepted (oldest first), and the errors that the connection makes
  \<open>send\<close> and \<open>shutdown\<close> raise. Operations on a closed socket raise
  \<open>OSError\<close> 9 (bad file descriptor).
\<close>

record sock =
  is_closed :: bool
  sent :: "string list"
  send_err :: "nat option"
  shutdown_err :: "nat option"

text \<open>What one call of \<open>socket.recv\<close> yields on an open socket.\<close>

datatype recv_event =
    Data string       \<comment> \<open>bytes that decode to this text (empty at end of stream)\<close>
  | Undecodable       \<comment> \<open>bytes that are not UTF-8\<close>
  | RecvErr nat       \<comment> \<open>\<open>recv\<close> raises \<open>OSError\<close> with this number\<close>

definition sock_send :: "string \<Rightarrow> sock \<Rightarrow> sock \<times> unit outcome" where
  "sock_send raw k =
     (if is_closed k then (k, Raise (OSError 9))
      else case send_err k of
             Some e \<Rightarrow> (k, Raise (OSError e))
           | None \<Rightarrow> (k\<lparr>sent := sent k @ [raw]\<rparr>, Ret ()))"

definition sock_shutdown :: "sock \<Rightarrow> unit outcome" where
  "sock_shutdown k =
     (if is_closed k then Raise (OSError 9)
      else case shutdown_err k of Some e \<Rightarrow> Raise (OSError e) | None \<Rightarrow> Ret ())"

definition sock_close :: "sock \<Rightarrow> sock" where
  "sock_close k = k\<lparr>is_closed := True\<rparr>"

subsection \<open>Clients and the server\<close>

type_synonym cid = nat

record client =
  socket :: sock
  address :: string
  chat :: bool
  name :: "string option"     \<comment> \<open>\<open>None\<close> until \<open>join\<close> assigns \<open>self.name\<close>\<close>

datatype printed =
    Available string nat | ShuttingDown | HasJoined string | HasLeft string
  | ClosedServer

text \<open>
  \<open>clients\<close> is the dictionary, in insertion order (the order in which Python
  iterates it); \<open>objs\<close> is the store of client objects, addressed by identity.
\<close>

record server =
  clients :: "(cid \<times> string) list"
  objs :: "cid \<Rightarrow> client"
  host :: string
  port :: nat
  is_running :: bool
  backlog :: "nat option"
  server_closed :: bool
  threads :: "cid list"         \<comment> \<open>clients whose \<open>handle\<close> was started in a thread\<close>
  next_obj :: cid               \<comment> \<open>address of the next client object\<close>
  refused :: "sock list"        \<comment> \<open>connections closed by the accept loop\<close>
  stdout :: "printed list"

definition upd_client :: "cid \<Rightarrow> (client \<Rightarrow> client) \<Rightarrow> server \<Rightarrow> server" where
  "upd_client c f s = s\<lparr>objs := (objs s)(c := f (objs s c))\<rparr>"

definition print :: "printed \<Rightarrow> server \<Rightarrow> server" where
  "print p s = s\<lparr>stdout := stdout s @ [p]\<rparr>"

text \<open>
  \<open>Client.__init__\<close> and \<open>Server.__init__\<close>. Before any client object is created the
  store holds a placeholder on a closed socket at every address.
\<close>

definition open_sock :: sock where
  "open_sock = \<lparr>is_closed = False, sent = [], send_err = None, shutdown_err = None\<rparr>"

definition client_init :: "sock \<Rightarrow> string \<Rightarrow> client" where
  "client_init k a = \<lparr>socket = k, address = a, chat = False, name = None\<rparr>"

definition server_init :: "string \<Rightarrow> nat \<Rightarrow> server" where
  "server_init h p =
     \<lparr>clients = [], objs = (\<lambda>_. client_init (sock_close open_sock) []), host = h, port = p,
      is_running = False, backlog = None, server_closed = False, threads = [],
      next_obj = 0, refused = [], stdout = []\<rparr>"

subsection \<open>\<open>Client.send\<close> and \<open>Client.recv\<close>\<close>

definition clear :: string where
  "clear = ESC # ''[1K'' @ [CR]"

definition prompt :: string where
  "prompt = ESC # ''[33m>'' @ ESC # ''[0m ''"

text \<open>The bytes that \<open>Client.send\<close> builds from \<open>msg\<close>.\<close>

definition frame :: "bool \<Rightarrow> string \<Rightarrow> string" where
  "frame chatting msg =
     (if \<not> chatting then clear @ msg
      else clear @ (msg @ (if msg \<noteq> [] then [LF] else [])) @ prompt)"

definition send :: "cid \<Rightarrow> string \<Rightarrow> server \<Rightarrow> server \<times> unit outcome" where
  "send c msg s =
     (let raw = frame (chat (objs s c)) msg;
          (k, r) = sock_send raw (socket (objs s c))
      in (upd_client c (\<lambda>cl. cl\<lparr>socket := k\<rparr>) s, r))"

text \<open>
  \<open>Client.recv\<close> reads from the script of the connection and returns the rest of
  the script with the state. A chatting client is sent the empty message (the
  prompt) before the bytes are decoded.
\<close>

definition recv ::
  "cid \<Rightarrow> recv_event list \<Rightarrow> server \<Rightarrow> server \<times> recv_event list \<times> string outcome" where
  "recv c script s =
     (if is_closed (socket (objs s c)) then (s, script, Raise (OSError 9))
      else case script of
        [] \<Rightarrow> (s, [], Blocked)
      | RecvErr e # rest \<Rightarrow> (s, rest, Raise (OSError e))
      | ev # rest \<Rightarrow>
          (let (s1, r) = (if chat (objs s c) then send c [] s else (s, Ret ()))
           in case r of
                Ret _ \<Rightarrow> (case ev of Data txt \<Rightarrow> (s1, rest, Ret txt)
                                   | _ \<Rightarrow> (s1, rest, Raise UnicodeDecodeError))
              | Raise e \<Rightarrow> (s1, rest, Raise e)
              | Blocked \<Rightarrow> (s1, rest, Blocked)))"

subsection \<open>The dictionary \<open>Server.clients\<close>\<close>

text \<open>\<open>d[k] = v\<close>: an existing key keeps its place, a new key goes last.\<close>

fun dict_set :: "cid \<Rightarrow> string \<Rightarrow> (cid \<times> string) list \<Rightarrow> (cid \<times> string) list" where
  "dict_set k v [] = [(k, v)]"
| "dict_set k v (p # d) = (if fst p = k then (k, v) # d else p # dict_set k v d)"

text \<open>\<open>del d[k]\<close>: \<open>None\<close> stands for the \<open>KeyError\<close> of an absent key.\<close>

definition dict_del :: "cid \<Rightarrow> (cid \<times> string) list \<Rightarrow> (cid \<times> string) list option" where
  "dict_del k d =
     (if k \<in> set (map fst d) then Some (filter (\<lambda>p. fst p \<noteq> k) d) else None)"

subsection \<open>\<open>Server.broadcast\<close>\<close>

text \<open>
  The loop over the keys of the dictionary. \<open>send\<close> does not change the
  dictionary, so the keys are those at the start of the iteration.
\<close>

fun broadcast_loop :: "cid list \<Rightarrow> string \<Rightarrow> cid option \<Rightarrow> server \<Rightarrow> server \<times> unit outcome" where
  "broadcast_loop [] message sender s = (s, Ret ())"
| "broadcast_loop (c # cs) message sender s =
     (if Some c = sender then broadcast_loop cs message sender s
      else case send c message s of
             (s1, Ret _) \<Rightarrow> broadcast_loop cs message sender s1
           | (s1, Raise e) \<Rightarrow> (s1, Raise e)
           | (s1, Blocked) \<Rightarrow> (s1, Blocked))"

definition broadcast :: "string \<Rightarrow> cid option \<Rightarrow> server \<Rightarrow> server \<times> unit outcome" where
  "broadcast message sender s = broadcast_loop (map fst (clients s)) message sender s"

subsection \<open>\<open>Client.msg\<close>, \<open>Client.join\<close>, \<open>Client.kill\<close>, \<open>Client.leave\<close>\<close>

definition chat_line :: "string \<Rightarrow> string \<Rightarrow> string" where
  "chat_line nm m = ESC # ''[36m'' @ nm @ ESC # ''[0m: '' @ m"

definition msg :: "cid \<Rightarrow> string \<Rightarrow> server \<Rightarrow> server \<times> unit outcome" where
  "msg c m s =
     (let m1 = strip m
      in case name (objs s c) of
           None \<Rightarrow> (s, Raise AttributeError)
         | Some nm \<Rightarrow> broadcast (chat_line nm m1) (Some c) s)"

definition name_prompt :: string where
  "name_prompt = ''Enter your name'' @ LF # ''> ''"

definition welcome_msg :: "string \<Rightarrow> string" where
  "welcome_msg nm = ''Hi '' @ nm @ ''! Type :quit to leave'' @ [LF]"

definition joined_msg :: "string \<Rightarrow> string" where
  "joined_msg nm = ESC # ''[32m'' @ nm @ '' has joined'' @ ESC # ''[0m''"

definition left_msg :: "string \<Rightarrow> string" where
  "left_msg nm = ESC # ''[32m'' @ nm @ '' has left the chat'' @ ESC # ''[0m''"

definition farewell :: string where
  "farewell = ''You will be disconnected. Bye!''"

definition join ::
  "cid \<Rightarrow> recv_event list \<Rightarrow> server \<Rightarrow> server \<times> recv_event list \<times> unit outcome" where
  "join c script s =
     (case send c name_prompt s of
        (s1, Raise e) \<Rightarrow> (s1, script, Raise e)
      | (s1, Blocked) \<Rightarrow> (s1, script, Blocked)
      | (s1, Ret _) \<Rightarrow>
     (case recv c script s1 of
        (s2, rest, Raise e) \<Rightarrow> (s2, rest, Raise e)
      | (s2, rest, Blocked) \<Rightarrow> (s2, rest, Blocked)
      | (s2, rest, Ret line) \<Rightarrow>
     (let nm = strip line;
          s3 = upd_client c (\<lambda>cl. cl\<lparr>name := Some nm\<rparr>) s2
      in case send c (welcome_msg nm) s3 of
        (s4, Raise e) \<Rightarrow> (s4, rest, Raise e)
      | (s4, Blocked) \<Rightarrow> (s4, rest, Blocked)
      | (s4, Ret _) \<Rightarrow>
     (case broadcast (joined_msg nm) None s4 of
        (s5, Raise e) \<Rightarrow> (s5, rest, Raise e)
      | (s5, Blocked) \<Rightarrow> (s5, rest, Blocked)
      | (s5, Ret _) \<Rightarrow> (s5\<lparr>clients := dict_set c nm (clients s5)\<rparr>, rest, Ret ())))))"

text \<open>
  \<open>kill\<close>: an exception of \<open>shutdown\<close> skips \<open>close\<close>; it is swallowed when its
  first argument is 32 or 107 and raised again otherwise.
\<close>

definition kill :: "cid \<Rightarrow> bool \<Rightarrow> server \<Rightarrow> server \<times> unit outcome" where
  "kill c delete s =
     (let k = socket (objs s c);
          (s1, r) =
            (case sock_shutdown k of
               Ret _ \<Rightarrow> (upd_client c (\<lambda>cl. cl\<lparr>socket := sock_close k\<rparr>) s, Ret ())
             | Raise (OSError e) \<Rightarrow> (s, if e \<notin> {32, 107} then Raise (OSError e) else Ret ())
             | r \<Rightarrow> (s, r))
      in case r of
           Ret _ \<Rightarrow>
             (let s2 = print (HasLeft (address (objs s1 c))) s1
              in if delete then
                   (case dict_del c (clients s2) of
                      None \<Rightarrow> (s2, Raise KeyError)
                    | Some d \<Rightarrow> (s2\<lparr>clients := d\<rparr>, Ret ()))
                 else (s2, Ret ()))
         | _ \<Rightarrow> (s1, r))"

definition leave :: "cid \<Rightarrow> bool \<Rightarrow> bool \<Rightarrow> server \<Rightarrow> server \<times> unit outcome" where
  "leave c delete gone s =
     (let s0 = upd_client c (\<lambda>cl. cl\<lparr>chat := False\<rparr>) s
      in case (if \<not> gone then send c farewell s0 else (s0, Ret ())) of
        (s1, Raise e) \<Rightarrow> (s1, Raise e)
      | (s1, Blocked) \<Rightarrow> (s1, Blocked)
      | (s1, Ret _) \<Rightarrow>
     (case kill c delete s1 of
        (s2, Raise e) \<Rightarrow> (s2, Raise e)
      | (s2, Blocked) \<Rightarrow> (s2, Blocked)
      | (s2, Ret _) \<Rightarrow>
          (if delete then
             (case name (objs s2 c) of
                None \<Rightarrow> (s2, Raise AttributeError)
              | Some nm \<Rightarrow> broadcast (left_msg nm) None s2)
           else (s2, Ret ()))))"

subsection \<open>\<open>Client.handler\<close> and \<open>Client.handle\<close>\<close>

lemma recv_shorter:
  "recv c script s = (s1, rest, Ret m) \<Longrightarrow> length rest < length script"
  by (auto simp: recv_def Let_def split: if_splits list.splits recv_event.splits
      prod.splits outcome.splits)

text \<open>
  The body of the \<open>while True\<close> loop of \<open>handler\<close>. It returns \<open>True\<close> when the loop
  goes on (also by \<open>continue\<close>) and \<open>False\<close> on \<open>break\<close>.
\<close>

definition handler_body ::
  "cid \<Rightarrow> recv_event list \<Rightarrow> server \<Rightarrow> server \<times> recv_event list \<times> bool outcome" where
  "handler_body c script s =
     (case recv c script s of
        (s1, rest, Raise e) \<Rightarrow> (s1, rest, Raise e)
      | (s1, rest, Blocked) \<Rightarrow> (s1, rest, Blocked)
      | (s1, rest, Ret message) \<Rightarrow>
          (if str_in '':quit'' message then
             (case leave c True False s1 of
                (s2, Raise e) \<Rightarrow> (s2, rest, Raise e)
              | (s2, Blocked) \<Rightarrow> (s2, rest, Blocked)
              | (s2, Ret _) \<Rightarrow> (s2, rest, Ret False))
           else if message \<in> {[], [LF]} then (s1, rest, Ret True)
           else
             (case msg c message s1 of
                (s2, Raise e) \<Rightarrow> (s2, rest, Raise e)
              | (s2, Blocked) \<Rightarrow> (s2, rest, Blocked)
              | (s2, Ret _) \<Rightarrow> (s2, rest, Ret True))))"

lemma handler_body_shorter:
  "handler_body c script s = (s1, rest, Ret b) \<Longrightarrow> length rest < length script"
  by (auto simp: handler_body_def dest: recv_shorter
      split: prod.splits outcome.splits if_splits)

text \<open>The loop; every iteration that goes on has read one event.\<close>

function handler_loop ::
  "cid \<Rightarrow> recv_event list \<Rightarrow> server \<Rightarrow> server \<times> recv_event list \<times> unit outcome" where
  "handler_loop c script s =
     (case handler_body c script s of
        (s1, rest, Raise e) \<Rightarrow> (s1, rest, Raise e)
      | (s1, rest, Blocked) \<Rightarrow> (s1, rest, Blocked)
      | (s1, rest, Ret go_on) \<Rightarrow>
          (if go_on then handler_loop c rest s1 else (s1, rest, Ret ())))"
  by pat_completeness auto
termination
  by (relation "measure (\<lambda>(c, script, s). length script)")
     (auto dest: handler_body_shorter [OF sym])

declare handler_loop.simps [simp del]

definition handler ::
  "cid \<Rightarrow> recv_event list \<Rightarrow> server \<Rightarrow> server \<times> recv_event list \<times> unit outcome" where
  "handler c script s =
     (case join c script s of
        (s1, rest, Raise e) \<Rightarrow> (s1, rest, Raise e)
      | (s1, rest, Blocked) \<Rightarrow> (s1, rest, Blocked)
      | (s1, rest, Ret _) \<Rightarrow>
     (let s2 = upd_client c (\<lambda>cl. cl\<lparr>chat := True\<rparr>) s1
      in case send c [] s2 of
        (s3, Raise e) \<Rightarrow> (s3, rest, Raise e)
      | (s3, Blocked) \<Rightarrow> (s3, rest, Blocked)
      | (s3, Ret _) \<Rightarrow> handler_loop c rest s3))"

text \<open>
  \<open>handle\<close> catches \<open>socket.error\<close> only: on \<open>EPIPE\<close> the client leaves as gone,
  on 9 the call returns, every other error is raised again.
\<close>

definition handle ::
  "cid \<Rightarrow> recv_event list \<Rightarrow> server \<Rightarrow> server \<times> recv_event list \<times> unit outcome" where
  "handle c script s =
     (case handler c script s of
        (s1, rest, Raise (OSError e)) \<Rightarrow>
          (if e = EPIPE then (case leave c True True s1 of (s2, r) \<Rightarrow> (s2, rest, r))
           else if e = 9 then (s1, rest, Ret ())
           else (s1, rest, Raise (OSError e)))
      | other \<Rightarrow> other)"

subsection \<open>\<open>Server.close_connections\<close>, \<open>Server.close\<close>, \<open>Server.accept_connections\<close>, \<open>Server.start\<close>\<close>




definition close :: "server \<Rightarrow> server" where
  "close s = print ClosedServer (s\<lparr>server_closed := True\<rparr>)"







section \<open>Properties\<close>

subsection \<open>Vocabulary of the statements\<close>

text \<open>
  \<open>sendable s c\<close>: the socket of client \<open>c\<close> accepts a \<open>send\<close>.
  \<open>deliver m cl\<close>: client \<open>cl\<close> after \<open>Client.send\<close> put message \<open>m\<close>, framed for
  the client's stage, on its socket. \<open>deliver_to R m s\<close>: the state after every
  client in \<open>R\<close> was sent \<open>m\<close>.
\<close>

definition sendable :: "server \<Rightarrow> cid \<Rightarrow> bool" where
  "sendable s c = (\<not> is_closed (socket (objs s c)) \<and> send_err (socket (objs s c)) = None)"

definition deliver :: "string \<Rightarrow> client \<Rightarrow> client" where
  "deliver m cl = cl\<lparr>socket := (socket cl)\<lparr>sent := sent (socket cl) @ [frame (chat cl) m]\<rparr>\<rparr>"

definition deliver_to :: "cid set \<Rightarrow> string \<Rightarrow> server \<Rightarrow> server" where
  "deliver_to R m s = s\<lparr>objs := (\<lambda>c. if c \<in> R then deliver m (objs s c) else objs s c)\<rparr>"

text \<open>The \<open>try\<close> block of \<open>kill\<close> followed by the \<open>print\<close>, when nothing escalates.\<close>

definition torn_down :: "cid \<Rightarrow> server \<Rightarrow> server" where
  "torn_down c s =
     print (HasLeft (address (objs s c)))
       (if shutdown_err (socket (objs s c)) = None
        then upd_client c (\<lambda>cl. cl\<lparr>socket := sock_close (socket cl)\<rparr>) s else s)"

text \<open>
  \<open>tears_down s c\<close>: the socket of client \<open>c\<close> is open and its \<open>shutdown\<close> raises
  nothing or an error that \<open>kill\<close> swallows.
\<close>

definition tears_down :: "server \<Rightarrow> cid \<Rightarrow> bool" where
  "tears_down s c =
     (\<not> is_closed (socket (objs s c)) \<and>
      shutdown_err (socket (objs s c)) \<in> {None, Some 32, Some 107})"

text \<open>The state in which \<open>leave\<close> calls \<open>kill\<close>.\<close>

definition leaving :: "cid \<Rightarrow> bool \<Rightarrow> server \<Rightarrow> server" where
  "leaving c gone s =
     (let s0 = upd_client c (\<lambda>cl. cl\<lparr>chat := False\<rparr>) s
      in if gone then s0 else upd_client c (deliver farewell) s0)"

text \<open>A client object after \<open>leave(delete=False)\<close> on a socket that accepts the farewell.\<close>

definition swept :: "client \<Rightarrow> client" where
  "swept cl =
     (let cl1 = deliver farewell (cl\<lparr>chat := False\<rparr>)
      in if shutdown_err (socket cl1) = None
         then cl1\<lparr>socket := sock_close (socket cl1)\<rparr> else cl1)"

text \<open>The session of client \<open>c\<close> is in the chatting state under the name \<open>nm\<close>.\<close>

definition chatting :: "server \<Rightarrow> cid \<Rightarrow> string \<Rightarrow> bool" where
  "chatting s c nm =
     (chat (objs s c) \<and> name (objs s c) = Some nm \<and> (c, nm) \<in> set (clients s) \<and>
      distinct (map fst (clients s)))"

subsection \<open>Example states\<close>

text \<open>
  A room of three chatting clients, Alice (0), Bob (1) and Carol (2), joined in
  this order, on the given sockets, and a newly accepted client (3) that has
  not joined yet.
\<close>

definition chatter :: "string \<Rightarrow> sock \<Rightarrow> client" where
  "chatter nm k = (client_init k ''peer'')\<lparr>chat := True, name := Some nm\<rparr>"

definition room :: "sock \<Rightarrow> sock \<Rightarrow> sock \<Rightarrow> server" where
  "room k0 k1 k2 =
     (server_init ''localhost'' 1337)
       \<lparr>clients := [(0, ''Alice''), (1, ''Bob''), (2, ''Carol'')],
        objs := (objs (server_init ''localhost'' 1337))
                  (0 := chatter ''Alice'' k0, 1 := chatter ''Bob'' k1, 2 := chatter ''Carol'' k2,
                   3 := client_init open_sock ''peer''),
        is_running := True, backlog := Some 5, next_obj := 4\<rparr>"


definition broken_sock :: "nat \<Rightarrow> sock" where
  "broken_sock e = open_sock\<lparr>send_err := Some e\<rparr>"

subsection \<open>Sending and broadcasting\<close>

lemma upd_client_simps [simp]:
  "clients (upd_client c f s) = clients s"
  "objs (upd_client c f s) = (objs s)(c := f (objs s c))"
  "is_running (upd_client c f s) = is_running s"
  "server_closed (upd_client c f s) = server_closed s"
  "stdout (upd_client c f s) = stdout s"
  "threads (upd_client c f s) = threads s"
  "backlog (upd_client c f s) = backlog s"
  "next_obj (upd_client c f s) = next_obj s"
  by (simp_all add: upd_client_def)

lemma send_ok: "sendable s c \<Longrightarrow> send c m s = (upd_client c (deliver m) s, Ret ())"
  by (simp add: send_def sendable_def sock_send_def deliver_def upd_client_def)

lemma send_closed:
  "is_closed (socket (objs s c)) \<Longrightarrow> send c m s = (s, Raise (OSError 9))"
  by (simp add: send_def sock_send_def upd_client_def)

lemma send_err:
  "\<not> is_closed (socket (objs s c)) \<Longrightarrow> send_err (socket (objs s c)) = Some e \<Longrightarrow>
   send c m s = (s, Raise (OSError e))"
  by (simp add: send_def sock_send_def upd_client_def)

lemma send_cases:
  "send c m s = (upd_client c (deliver m) s, Ret ()) \<or> (\<exists>e. send c m s = (s, Raise (OSError e)))"
  by (cases "is_closed (socket (objs s c))"; cases "send_err (socket (objs s c))")
     (simp_all add: send_closed send_err send_ok sendable_def)

lemma broadcast_loop_clients [simp]:
  "clients (fst (broadcast_loop cs m x s)) = clients s"
proof (induction cs arbitrary: s)
  case Nil then show ?case by simp
next
  case (Cons c cs)
  show ?case using send_cases [of c m s] Cons.IH by (auto split: prod.splits outcome.splits)
qed

lemma broadcast_loop_other [simp]:
  "k \<notin> set cs \<or> Some k = x \<Longrightarrow> objs (fst (broadcast_loop cs m x s)) k = objs s k"
proof (induction cs arbitrary: s)
  case Nil then show ?case by simp
next
  case (Cons c cs)
  have k: "k \<notin> set cs \<or> Some k = x" using Cons.prems by auto
  show ?case
  proof (cases "Some c = x")
    case True
    then show ?thesis using Cons.IH [OF k] by simp
  next
    case False
    then have ck: "c \<noteq> k" using Cons.prems by auto
    from send_cases [of c m s] show ?thesis
    proof
      assume "send c m s = (upd_client c (deliver m) s, Ret ())"
      then show ?thesis using False ck Cons.IH [OF k, of "upd_client c (deliver m) s"] by simp
    next
      assume "\<exists>e. send c m s = (s, Raise (OSError e))"
      then show ?thesis using False by auto
    qed
  qed
qed

lemma sendable_upd_other [simp]:
  "k \<noteq> c \<Longrightarrow> sendable (upd_client c f s) k = sendable s k"
  by (simp add: sendable_def)

lemma broadcast_loop_ok:
  "distinct cs \<Longrightarrow> \<forall>c\<in>set cs. Some c \<noteq> x \<longrightarrow> sendable s c \<Longrightarrow>
   broadcast_loop cs m x s = (deliver_to {c \<in> set cs. Some c \<noteq> x} m s, Ret ())"
proof (induction cs arbitrary: s)
  case Nil
  then show ?case by (simp add: deliver_to_def)
next
  case (Cons c cs)
  show ?case
  proof (cases "Some c = x")
    case True
    have "{k \<in> set (c # cs). Some k \<noteq> x} = {k \<in> set cs. Some k \<noteq> x}"
      using True by auto
    with True Cons show ?thesis by simp
  next
    case False
    let ?s1 = "upd_client c (deliver m) s"
    have s: "send c m s = (?s1, Ret ())" using False Cons.prems by (simp add: send_ok)
    have c: "c \<notin> set cs" "distinct cs" using Cons.prems by auto
    have "\<forall>k\<in>set cs. Some k \<noteq> x \<longrightarrow> sendable ?s1 k"
      using Cons.prems(2) c by (metis list.set_intros(2) sendable_upd_other)
    then have ih: "broadcast_loop cs m x ?s1 = (deliver_to {k \<in> set cs. Some k \<noteq> x} m ?s1, Ret ())"
      using c by (intro Cons.IH)
    have "deliver_to {k \<in> set cs. Some k \<noteq> x} m ?s1 = deliver_to {k \<in> set (c # cs). Some k \<noteq> x} m s"
      using False Cons.prems by (auto simp: deliver_to_def upd_client_def fun_eq_iff)
    with s ih False show ?thesis by simp
  qed
qed

subsection \<open>Projections\<close>

lemma deliver_simps [simp]:
  "chat (deliver m cl) = chat cl"
  "name (deliver m cl) = name cl"
  "address (deliver m cl) = address cl"
  "is_closed (socket (deliver m cl)) = is_closed (socket cl)"
  "send_err (socket (deliver m cl)) = send_err (socket cl)"
  "shutdown_err (socket (deliver m cl)) = shutdown_err (socket cl)"
  "sent (socket (deliver m cl)) = sent (socket cl) @ [frame (chat cl) m]"
  by (simp_all add: deliver_def)

lemma deliver_to_simps [simp]:
  "clients (deliver_to R m s) = clients s"
  "objs (deliver_to R m s) k = (if k \<in> R then deliver m (objs s k) else objs s k)"
  "is_running (deliver_to R m s) = is_running s"
  "server_closed (deliver_to R m s) = server_closed s"
  "stdout (deliver_to R m s) = stdout s"
  "threads (deliver_to R m s) = threads s"
  "backlog (deliver_to R m s) = backlog s"
  "next_obj (deliver_to R m s) = next_obj s"
  by (simp_all add: deliver_to_def)

lemma sendable_deliver_to [simp]: "sendable (deliver_to R m s) k = sendable s k"
  by (simp add: sendable_def)

lemma sendable_upd_deliver [simp]: "sendable (upd_client c (deliver m) s) k = sendable s k"
  by (simp add: sendable_def)

lemma broadcast_loop_append:
  "broadcast_loop (xs @ ys) m x s =
     (case broadcast_loop xs m x s of
        (s1, Ret _) \<Rightarrow> broadcast_loop ys m x s1
      | (s1, r) \<Rightarrow> (s1, r))"
proof (induction xs arbitrary: s)
  case Nil then show ?case by simp
next
  case (Cons c xs)
  show ?case using Cons.IH by (simp split: prod.splits outcome.splits)
qed

lemma send_fails:
  "\<not> sendable s c \<Longrightarrow> \<exists>e. send c m s = (s, Raise (OSError e))"
  using send_closed [of s c m] send_err [of s c _ m]
  by (cases "is_closed (socket (objs s c))"; cases "send_err (socket (objs s c))")
     (auto simp: sendable_def)

subsection \<open>The example states\<close>

lemma room_open_simps:
  "clients (room k0 k1 k2) = [(0, ''Alice''), (1, ''Bob''), (2, ''Carol'')]"
  "objs (room k0 k1 k2) 0 = chatter ''Alice'' k0"
  "objs (room k0 k1 k2) (Suc 0) = chatter ''Bob'' k1"
  "objs (room k0 k1 k2) 2 = chatter ''Carol'' k2"
  "objs (room k0 k1 k2) 3 = client_init open_sock ''peer''"
  by (simp_all add: room_def)

lemma chatter_simps [simp]:
  "socket (chatter nm k) = k" "chat (chatter nm k)" "name (chatter nm k) = Some nm"
  "address (chatter nm k) = ''peer''"
  by (simp_all add: chatter_def client_init_def)

lemma open_sock_simps [simp]:
  "\<not> is_closed open_sock" "sent open_sock = []" "send_err open_sock = None"
  "shutdown_err open_sock = None"
  by (simp_all add: open_sock_def)


text \<open>The definitions that a run on a concrete state unfolds.\<close>

lemmas run_defs = handle_def handler_def join_def send_def recv_def sock_send_def
  handler_body_def msg_def broadcast_def leave_def kill_def sock_shutdown_def sock_close_def
  dict_del_def upd_client_def print_def frame_def strip_def isspace_def
  room_open_simps client_init_def EPIPE_def Let_def LF_def


subsection \<open>Claims about \<open>Client.recv\<close> and \<open>Server.broadcast\<close>\<close>



text \<open>
  C1, as stated, fails: \<open>broadcast\<close> stops at the first \<open>send\<close> that raises. Alice
  is the excluded sender and Bob's socket refuses the send: Carol, registered
  and able to receive, is sent nothing.
\<close>

theorem broadcast_sender_counterexample:
  "(2, ''Carol'') \<in> set (clients (room open_sock (broken_sock 32) open_sock)) \<and>
   sendable (room open_sock (broken_sock 32) open_sock) 2 \<and>
   snd (broadcast ''hi'' (Some 0) (room open_sock (broken_sock 32) open_sock)) =
     Raise (OSError 32) \<and>
   sent (socket (objs (fst (broadcast ''hi'' (Some 0)
     (room open_sock (broken_sock 32) open_sock))) 2)) = []"
  by (simp add: broadcast_def room_open_simps sendable_def send_def sock_send_def
      broken_sock_def upd_client_def)

text \<open>
  C1, amended. A broadcast with an excluded sender never changes the sender's
  object (the sender is sent nothing) nor the dictionary. When the socket of
  every other registered client accepts sends, the broadcast returns and each
  registered client other than the sender has been sent the message, framed
  for its stage.
\<close>

theorem broadcast_excludes_sender:
  "case broadcast message (Some sender) s of (s1, r) \<Rightarrow>
     objs s1 sender = objs s sender \<and> clients s1 = clients s \<and>
     (distinct (map fst (clients s)) \<and>
      (\<forall>c\<in>set (map fst (clients s)). c \<noteq> sender \<longrightarrow> sendable s c) \<longrightarrow>
        r = Ret () \<and>
        (\<forall>c\<in>set (map fst (clients s)). c \<noteq> sender \<longrightarrow>
           sent (socket (objs s1 c)) = sent (socket (objs s c)) @ [frame (chat (objs s c)) message]))"
proof -
  let ?cs = "map fst (clients s)"
  let ?b = "broadcast_loop ?cs message (Some sender) s"
  have a: "objs (fst ?b) sender = objs s sender" by simp
  have b: "clients (fst ?b) = clients s" by simp
  have c: "snd ?b = Ret () \<and>
        (\<forall>c\<in>set ?cs. c \<noteq> sender \<longrightarrow>
           sent (socket (objs (fst ?b) c)) = sent (socket (objs s c)) @ [frame (chat (objs s c)) message])"
    if "distinct ?cs" "\<forall>c\<in>set ?cs. c \<noteq> sender \<longrightarrow> sendable s c"
  proof -
    have "\<forall>c\<in>set ?cs. Some c \<noteq> Some sender \<longrightarrow> sendable s c" using that(2) by simp
    from broadcast_loop_ok [OF that(1) this, of message] show ?thesis by simp
  qed
  from a b c show ?thesis unfolding broadcast_def by (simp add: case_prod_unfold)
qed

theorem broadcast_excludes_sender_witness:
  "distinct (map fst (clients (room open_sock open_sock open_sock))) \<and>
   sendable (room open_sock open_sock open_sock) 1 \<and>
   sendable (room open_sock open_sock open_sock) 2 \<and>
   (case broadcast ''hi'' (Some 0) (room open_sock open_sock open_sock) of (s1, r) \<Rightarrow>
      r = Ret () \<and> sent (socket (objs s1 0)) = [] \<and>
      sent (socket (objs s1 1)) = [clear @ ''hi'' @ [LF] @ prompt] \<and>
      sent (socket (objs s1 2)) = [clear @ ''hi'' @ [LF] @ prompt])"
proof -
  let ?s = "room open_sock open_sock open_sock"
  have h1: "distinct (map fst (clients ?s))" by (simp add: room_open_simps)
  have h2: "\<forall>c\<in>set (map fst (clients ?s)). c \<noteq> 0 \<longrightarrow> sendable ?s c"
    by (simp add: room_open_simps sendable_def)
  have h3: "sendable ?s 1 \<and> sendable ?s 2" by (simp add: room_open_simps sendable_def)
  from broadcast_excludes_sender [where message = "''hi''" and sender = 0 and s = ?s] h1 h2 h3
  show ?thesis
    by (auto simp: room_open_simps frame_def split: prod.splits)
qed

text \<open>
  C7, as stated, fails: \<open>broadcast\<close> has no handler around \<open>client.send\<close>. With
  Bob's socket broken, a broadcast to Alice, Bob and Carol raises at Bob, and
  Carol, registered and able to receive, is sent nothing.
\<close>

theorem broadcast_failure_counterexample:
  "(2, ''Carol'') \<in> set (clients (room open_sock (broken_sock 32) open_sock)) \<and>
   sendable (room open_sock (broken_sock 32) open_sock) 2 \<and>
   snd (broadcast ''hi'' None (room open_sock (broken_sock 32) open_sock)) = Raise (OSError 32) \<and>
   sent (socket (objs (fst (broadcast ''hi'' None (room open_sock (broken_sock 32) open_sock))) 2)) = []"
  by (simp add: broadcast_def room_open_simps sendable_def send_def sock_send_def
      broken_sock_def upd_client_def)

text \<open>
  C7, amended. Recipients are served in the iteration order of the dictionary.
  The first recipient whose socket refuses the send ends the broadcast with
  that \<open>OSError\<close>: the recipients before it have been sent the message, the
  failing one and all after it are unchanged.
\<close>

theorem broadcast_stops_at_failure:
  assumes "map fst (clients s) = before @ a # after"
    and "distinct (map fst (clients s))"
    and "\<forall>c\<in>set before. Some c \<noteq> x \<longrightarrow> sendable s c"
    and "Some a \<noteq> x" and "\<not> sendable s a"
  shows "case broadcast message x s of (s1, r) \<Rightarrow>
           (\<exists>e. r = Raise (OSError e)) \<and>
           (\<forall>c\<in>set before. Some c \<noteq> x \<longrightarrow>
              sent (socket (objs s1 c)) = sent (socket (objs s c)) @ [frame (chat (objs s c)) message]) \<and>
           (\<forall>c\<in>set (a # after). objs s1 c = objs s c) \<and> clients s1 = clients s"
proof -
  let ?s1 = "deliver_to {c \<in> set before. Some c \<noteq> x} message s"
  have d: "distinct before" "a \<notin> set before" "set before \<inter> set after = {}"
    using assms(1,2) by auto
  have b: "broadcast_loop before message x s = (?s1, Ret ())"
    using d(1) assms(3) by (rule broadcast_loop_ok)
  have "\<not> sendable ?s1 a" using assms(5) by simp
  from send_fails [OF this] obtain e where "send a message ?s1 = (?s1, Raise (OSError e))"
    by blast
  then have "broadcast_loop (a # after) message x ?s1 = (?s1, Raise (OSError e))"
    using assms(4) by simp
  with b have "broadcast message x s = (?s1, Raise (OSError e))"
    by (simp add: broadcast_def assms(1) broadcast_loop_append)
  then show ?thesis using d by auto
qed

theorem broadcast_stops_at_failure_witness:
  "map fst (clients (room open_sock (broken_sock 32) open_sock)) = [0] @ 1 # [2] \<and>
   distinct (map fst (clients (room open_sock (broken_sock 32) open_sock))) \<and>
   sendable (room open_sock (broken_sock 32) open_sock) 0 \<and>
   \<not> sendable (room open_sock (broken_sock 32) open_sock) 1 \<and>
   (case broadcast ''hi'' None (room open_sock (broken_sock 32) open_sock) of (s1, r) \<Rightarrow>
      (\<exists>e. r = Raise (OSError e)) \<and>
      sent (socket (objs s1 0)) = [clear @ ''hi'' @ [LF] @ prompt] \<and>
      sent (socket (objs s1 2)) = [])"
proof -
  let ?s = "room open_sock (broken_sock 32) open_sock"
  have h1: "map fst (clients ?s) = [0] @ 1 # [2]" by (simp add: room_open_simps)
  have h2: "distinct (map fst (clients ?s))" by (simp add: room_open_simps)
  have h3: "\<forall>c\<in>set [0]. Some c \<noteq> None \<longrightarrow> sendable ?s c"
    by (simp add: room_open_simps sendable_def)
  have h4: "Some (1::nat) \<noteq> None" by simp
  have h5: "\<not> sendable ?s 1" by (simp add: room_open_simps sendable_def broken_sock_def)
  have h6: "sendable ?s 0" by (simp add: room_open_simps sendable_def)
  from broadcast_stops_at_failure [OF h1 h2 h3 h4 h5, where message = "''hi''"] h1 h2 h6 h5
  show ?thesis
    by (auto simp: room_open_simps frame_def split: prod.splits)
qed

lemma print_simps [simp]:
  "clients (print p s) = clients s" "objs (print p s) = objs s"
  "stdout (print p s) = stdout s @ [p]"
  "is_running (print p s) = is_running s"
  "server_closed (print p s) = server_closed s"
  by (simp_all add: print_def)

lemma sendable_print [simp]: "sendable (print p s) k = sendable s k"
  by (simp add: sendable_def)

lemma recv_chat_data:
  "chat (objs s c) \<Longrightarrow> sendable s c \<Longrightarrow>
   recv c (Data l # rest) s = (upd_client c (deliver []) s, rest, Ret l)"
  by (simp add: recv_def send_ok sendable_def [of s c])






subsection \<open>Claim about \<open>Client.kill\<close>\<close>




subsection \<open>Leaving and messaging\<close>

lemma torn_down_simps [simp]:
  "clients (torn_down c s) = clients s"
  "k \<noteq> c \<Longrightarrow> objs (torn_down c s) k = objs s k"
  "chat (objs (torn_down c s) k) = chat (objs s k)"
  "name (objs (torn_down c s) k) = name (objs s k)"
  "sent (socket (objs (torn_down c s) k)) = sent (socket (objs s k))"
  "is_running (torn_down c s) = is_running s"
  "server_closed (torn_down c s) = server_closed s"
  by (simp_all add: torn_down_def sock_close_def)


lemma sendable_torn_down [simp]: "k \<noteq> c \<Longrightarrow> sendable (torn_down c s) k = sendable s k"
  by (simp add: sendable_def)

lemma sendable_clients_update [simp]: "sendable (s\<lparr>clients := d\<rparr>) k = sendable s k"
  by (simp add: sendable_def)



lemma image_fst_filter [simp]:
  "fst ` {x \<in> set d. fst x \<noteq> c} = fst ` set d - {c}"
  by force

lemma tears_down_upd_deliver [simp]:
  "tears_down (upd_client c (deliver m) s) k = tears_down s k"
  by (simp add: tears_down_def)

lemma broadcast_ok:
  "distinct (map fst (clients s)) \<Longrightarrow>
   \<forall>k\<in>set (map fst (clients s)). Some k \<noteq> x \<longrightarrow> sendable s k \<Longrightarrow>
   broadcast m x s = (deliver_to {k \<in> set (map fst (clients s)). Some k \<noteq> x} m s, Ret ())"
  unfolding broadcast_def by (rule broadcast_loop_ok)

lemma leaving_simps [simp]:
  "clients (leaving c gone s) = clients s"
  "k \<noteq> c \<Longrightarrow> objs (leaving c gone s) k = objs s k"
  "\<not> chat (objs (leaving c gone s) c)"
  "name (objs (leaving c gone s) k) = name (objs s k)"
  "sent (socket (objs (leaving c gone s) c)) =
     sent (socket (objs s c)) @ (if gone then [] else [clear @ farewell])"
  "tears_down (leaving c gone s) k = tears_down s k"
  "k \<noteq> c \<Longrightarrow> sendable (leaving c gone s) k = sendable s k"
  "shutdown_err (socket (objs (leaving c gone s) k)) = shutdown_err (socket (objs s k))"
  "is_running (leaving c gone s) = is_running s"
  "server_closed (leaving c gone s) = server_closed s"
  by (auto simp: leaving_def Let_def tears_down_def sendable_def frame_def)


lemma msg_ok:
  assumes "distinct (map fst (clients s))" and "name (objs s c) = Some nm"
    and "\<forall>k\<in>set (map fst (clients s)). k \<noteq> c \<longrightarrow> sendable s k"
  shows "msg c m s =
           (deliver_to (set (map fst (clients s)) - {c}) (chat_line nm (strip m)) s, Ret ())"
proof -
  have "\<forall>k\<in>set (map fst (clients s)). Some k \<noteq> Some c \<longrightarrow> sendable s k"
    using assms(3) by simp
  from broadcast_ok [OF assms(1) this]
  have "broadcast (chat_line nm (strip m)) (Some c) s =
      (deliver_to {k \<in> set (map fst (clients s)). Some k \<noteq> Some c} (chat_line nm (strip m)) s, Ret ())" .
  moreover have "{k \<in> set (map fst (clients s)). Some k \<noteq> Some c} = set (map fst (clients s)) - {c}"
    by auto
  ultimately show ?thesis by (simp add: msg_def assms(2))
qed

lemma chattingD:
  assumes "chatting s c nm"
  shows "chat (objs s c)" "name (objs s c) = Some nm" "c \<in> set (map fst (clients s))"
    "distinct (map fst (clients s))"
  using assms by (auto simp: chatting_def intro: rev_image_eqI)

lemma handler_loop_go_on:
  "handler_body c script s = (s1, rest, Ret True) \<Longrightarrow>
   handler_loop c script s = handler_loop c rest s1"
  by (subst handler_loop.simps) simp


lemma handler_loop_raise:
  "handler_body c script s = (s1, rest, Raise e) \<Longrightarrow>
   handler_loop c script s = (s1, rest, Raise e)"
  by (subst handler_loop.simps) simp

lemma handler_loop_blocked:
  "handler_body c script s = (s1, rest, Blocked) \<Longrightarrow>
   handler_loop c script s = (s1, rest, Blocked)"
  by (subst handler_loop.simps) simp


lemma str_in_quit_blank [simp]: "\<not> str_in '':quit'' []" "\<not> str_in '':quit'' [LF]"
  by (simp_all add: LF_def)


lemma handler_body_message:
  assumes "chatting s c nm"
    and "\<forall>k\<in>set (map fst (clients s)). sendable s k"
    and "\<not> str_in '':quit'' line" and "line \<noteq> []" and "line \<noteq> [LF]"
  shows "handler_body c (Data line # rest) s =
      (deliver_to (set (map fst (clients s)) - {c}) (chat_line nm (strip line))
         (upd_client c (deliver []) s), rest, Ret True)"
proof -
  let ?s1 = "upd_client c (deliver []) s"
  note c = chattingD [OF assms(1)]
  have sc: "sendable s c" using assms(2) c(3) by blast
  have r: "recv c (Data line # rest) s = (?s1, rest, Ret line)"
    using c(1) sc by (rule recv_chat_data)
  have m: "msg c line ?s1 =
      (deliver_to (set (map fst (clients ?s1)) - {c}) (chat_line nm (strip line)) ?s1, Ret ())"
    apply (rule msg_ok)
    using c assms(2) by simp_all
  show ?thesis using m by (simp add: handler_body_def r assms(3,4,5))
qed

subsection \<open>Claims about the chat loop\<close>



lemma room_facts:
  "chatting (room open_sock k1 k2) 0 ''Alice''"
  "sendable (room open_sock open_sock open_sock) 0"
  "sendable (room open_sock open_sock open_sock) 1"
  "sendable (room open_sock open_sock open_sock) 2"
  "tears_down (room open_sock k1 k2) 0"
  by (simp_all add: chatting_def sendable_def tears_down_def room_open_simps)


lemma strip_examples:
  "strip ''  '' = []" "strip ''  hello  '' = ''hello''"
  by (simp_all add: strip_def isspace_def)

lemma room_all_sendable:
  "\<forall>k\<in>set (map fst (clients (room open_sock open_sock open_sock))).
     sendable (room open_sock open_sock open_sock) k"
  by (simp add: room_open_simps sendable_def)




text \<open>
  C5, as stated, fails: the payload carries colour sequences around the name,
  and the recipient is sent it inside the frame of \<open>Client.send\<close>. When Alice
  sends \<open>"  hello  "\<close>, what Bob is sent is not the text \<open>Alice: hello\<close>.
\<close>

theorem chat_line_counterexample:
  "\<not> str_in '':quit'' ''  hello  '' \<and>
   sent (socket (objs (fst (handler_body 0 [Data ''  hello  '']
      (room open_sock open_sock open_sock))) 1)) =
     [clear @ ESC # ''[36mAlice'' @ ESC # ''[0m: hello'' @ [LF] @ prompt] \<and>
   [clear @ ESC # ''[36mAlice'' @ ESC # ''[0m: hello'' @ [LF] @ prompt] \<noteq> [''Alice: hello'']"
proof -
  let ?s = "room open_sock open_sock open_sock"
  have q: "\<not> str_in '':quit'' ''  hello  ''" by simp
  have n: "''  hello  '' \<noteq> []" "''  hello  '' \<noteq> [LF]" by (simp_all add: LF_def)
  show ?thesis
    by (simp add: handler_body_message [OF room_facts(1) room_all_sendable q n]
        room_open_simps strip_examples chat_line_def frame_def clear_def ESC_def)
qed

text \<open>
  C5, amended. For a line without \<open>:quit\<close> that is neither empty nor a bare
  newline, sent by a chatting client to a room whose sockets accept sends, the
  loop goes on and every other registered client has been sent, framed for its
  stage, the payload: the name between the colour sequences \<open>ESC[36m\<close> and
  \<open>ESC[0m\<close>, a colon and a space, and the line stripped of leading and trailing
  whitespace. The sender is sent the prompt only; unregistered clients and the
  dictionary are unchanged.
\<close>

theorem chat_line_broadcast:
  assumes "chatting s c nm"
    and "\<forall>k\<in>set (map fst (clients s)). sendable s k"
    and "\<not> str_in '':quit'' line" and "line \<noteq> []" and "line \<noteq> [LF]"
  shows "case handler_body c (Data line # rest) s of (s1, unread, r) \<Rightarrow>
           r = Ret True \<and> unread = rest \<and> clients s1 = clients s \<and>
           (\<forall>k\<in>set (map fst (clients s)). k \<noteq> c \<longrightarrow>
              sent (socket (objs s1 k)) =
                sent (socket (objs s k)) @
                  [frame (chat (objs s k)) (ESC # ''[36m'' @ nm @ ESC # ''[0m: '' @ strip line)]) \<and>
           (\<forall>k. k \<notin> set (map fst (clients s)) \<longrightarrow> objs s1 k = objs s k) \<and>
           sent (socket (objs s1 c)) = sent (socket (objs s c)) @ [clear @ prompt] \<and>
           chat (objs s1 c)"
  using chattingD [OF assms(1)]
  by (simp add: handler_body_message [OF assms] frame_def [of True "[]"] chat_line_def)

theorem chat_line_broadcast_witness:
  "chatting (room open_sock open_sock open_sock) 0 ''Alice'' \<and>
   sendable (room open_sock open_sock open_sock) 0 \<and>
   sendable (room open_sock open_sock open_sock) 1 \<and>
   sendable (room open_sock open_sock open_sock) 2 \<and>
   \<not> str_in '':quit'' ''  hello  '' \<and>
   (case handler_body 0 [Data ''  hello  ''] (room open_sock open_sock open_sock) of
      (s1, unread, r) \<Rightarrow>
        r = Ret True \<and> unread = [] \<and>
        sent (socket (objs s1 0)) = [clear @ prompt] \<and>
        sent (socket (objs s1 1)) = [clear @ ESC # ''[36mAlice'' @ ESC # ''[0m: hello'' @ [LF] @ prompt] \<and>
        sent (socket (objs s1 2)) = [clear @ ESC # ''[36mAlice'' @ ESC # ''[0m: hello'' @ [LF] @ prompt] \<and>
        sent (socket (objs s1 3)) = [])"
proof -
  let ?s = "room open_sock open_sock open_sock"
  have q: "\<not> str_in '':quit'' ''  hello  ''" by simp
  have n: "''  hello  '' \<noteq> []" "''  hello  '' \<noteq> [LF]" by (simp_all add: LF_def)
  from chat_line_broadcast [OF room_facts(1) room_all_sendable q n, of "[]"] room_facts q
  show ?thesis
    by (auto simp: room_open_simps strip_examples frame_def client_init_def split: prod.splits)
qed

subsection \<open>Claims about \<open>Client.handle\<close>\<close>




subsection \<open>The dictionary over the life of a session\<close>

lemma send_clientsD: "send c m s = (s1, r) \<Longrightarrow> clients s1 = clients s"
  using send_cases [of c m s] by auto

lemma recv_clientsD: "recv c script s = (s1, rest, r) \<Longrightarrow> clients s1 = clients s"
  by (auto simp: recv_def Let_def split: if_splits list.splits recv_event.splits
      prod.splits outcome.splits dest: send_clientsD)

lemma broadcast_clientsD: "broadcast m x s = (s1, r) \<Longrightarrow> clients s1 = clients s"
  using broadcast_loop_clients [of "map fst (clients s)" m x s] by (simp add: broadcast_def)

lemma keys_dict_set: "set (map fst (dict_set c nm d)) = insert c (set (map fst d))"
  by (induction d) auto

lemma join_clients:
  "join c script s = (s1, rest, r) \<Longrightarrow>
   (r = Ret () \<longrightarrow> (\<exists>nm. clients s1 = dict_set c nm (clients s))) \<and>
   (r \<noteq> Ret () \<longrightarrow> clients s1 = clients s)"
  unfolding join_def Let_def
  by (auto split: prod.splits outcome.splits
      dest!: send_clientsD recv_clientsD broadcast_clientsD)

lemma kill_delete_removes:
  "kill c True s = (s1, Ret ()) \<Longrightarrow> c \<notin> set (map fst (clients s1))"
  by (auto simp: kill_def Let_def dict_del_def
      split: prod.splits outcome.splits py_error.splits if_splits)

lemma kill_keep_clients: "clients (fst (kill c False s)) = clients s"
  by (auto simp: kill_def Let_def sock_shutdown_def
      split: prod.splits outcome.splits py_error.splits option.splits)

lemma leave_delete_removes:
  assumes "leave c True gone s = (s1, Ret ())"
  shows "c \<notin> set (map fst (clients s1))"
proof -
  from assms obtain t0 t nm where k: "kill c True t0 = (t, Ret ())"
    and b: "broadcast (left_msg nm) None t = (s1, Ret ())"
    unfolding leave_def Let_def
    by (auto split: prod.splits outcome.splits option.splits if_splits)
  from kill_delete_removes [OF k] broadcast_clientsD [OF b] show ?thesis by simp
qed

lemma leave_keep_clients: "clients (fst (leave c False gone s)) = clients s"
proof -
  have "clients (fst (kill c False t)) = clients t" for t by (rule kill_keep_clients)
  then have k: "kill c False t = (t1, r) \<Longrightarrow> clients t1 = clients t" for t t1 r
    by (metis fst_conv)
  show ?thesis
    unfolding leave_def Let_def
    by (auto split: prod.splits outcome.splits dest!: send_clientsD k)
qed

text \<open>
  C2, as stated, fails: \<open>handle\<close> raises an unexpected socket error again and
  does nothing else. Client 3 joins as Dave, then \<open>recv\<close> raises \<open>OSError\<close> 110;
  \<open>handle\<close> ends with that error and Dave is still in the dictionary.
\<close>

theorem unexpected_error_counterexample:
  "snd (handle 3 [Data ''Dave'', RecvErr 110] (room open_sock open_sock open_sock)) =
     ([], Raise (OSError 110)) \<and>
   clients (fst (handle 3 [Data ''Dave'', RecvErr 110] (room open_sock open_sock open_sock))) =
     [(0, ''Alice''), (1, ''Bob''), (2, ''Carol''), (3, ''Dave'')]"
  by (simp add: run_defs handler_loop.simps)

text \<open>
  C2, amended. A client that is not in the dictionary is in it after \<open>join\<close>
  exactly when \<open>join\<close> has returned, and \<open>join\<close> changes no other key. Whenever
  \<open>leave\<close> with \<open>delete\<close> set returns, the client is not in the dictionary;
  \<open>leave\<close> with \<open>delete\<close> unset never changes the dictionary. When \<open>handler\<close> ends
  with a socket error other than \<open>EPIPE\<close> and 9, \<open>handle\<close> ends with the same state
  and the same error, so an entry that was there stays.
\<close>

theorem registry_entry_lifecycle:
  "(c \<notin> set (map fst (clients s)) \<longrightarrow>
      (case join c script s of (s1, rest, r) \<Rightarrow>
         (c \<in> set (map fst (clients s1))) = (r = Ret ()) \<and>
         (\<forall>k. k \<noteq> c \<longrightarrow>
            (k \<in> set (map fst (clients s1))) = (k \<in> set (map fst (clients s)))))) \<and>
   (snd (leave c True gone t) = Ret () \<longrightarrow>
      c \<notin> set (map fst (clients (fst (leave c True gone t))))) \<and>
   clients (fst (leave c False gone u)) = clients u \<and>
   (handler c script' v = (v1, rest', Raise (OSError e)) \<and> e \<noteq> EPIPE \<and> e \<noteq> 9 \<longrightarrow>
      handle c script' v = (v1, rest', Raise (OSError e)))"
proof -
  have a: "case join c script s of (s1, rest, r) \<Rightarrow>
         (c \<in> set (map fst (clients s1))) = (r = Ret ()) \<and>
         (\<forall>k. k \<noteq> c \<longrightarrow>
            (k \<in> set (map fst (clients s1))) = (k \<in> set (map fst (clients s))))"
    if "c \<notin> set (map fst (clients s))"
  proof -
    obtain s1 rest r where j: "join c script s = (s1, rest, r)" by (cases "join c script s")
    from join_clients [OF j] that show ?thesis
      unfolding j by (cases "r = Ret ()") (auto simp: keys_dict_set simp del: set_map)
  qed
  have b: "c \<notin> set (map fst (clients (fst (leave c True gone t))))"
    if "snd (leave c True gone t) = Ret ()"
    using leave_delete_removes [of c gone t "fst (leave c True gone t)"] that
    by (simp add: prod_eq_iff)
  have d: "handle c script' v = (v1, rest', Raise (OSError e))"
    if "handler c script' v = (v1, rest', Raise (OSError e))" "e \<noteq> EPIPE" "e \<noteq> 9"
    using that by (simp add: handle_def)
  from a b d show ?thesis by (simp add: leave_keep_clients)
qed

theorem registry_entry_lifecycle_witness:
  "3 \<notin> set (map fst (clients (room open_sock open_sock open_sock))) \<and>
   snd (snd (join 3 [Data ''Dave''] (room open_sock open_sock open_sock))) = Ret () \<and>
   3 \<in> set (map fst (clients (fst (join 3 [Data ''Dave'']
          (room open_sock open_sock open_sock))))) \<and>
   snd (leave 3 True True (fst (join 3 [Data ''Dave'']
          (room open_sock open_sock open_sock)))) = Ret () \<and>
   3 \<notin> set (map fst (clients (fst (leave 3 True True (fst (join 3 [Data ''Dave'']
          (room open_sock open_sock open_sock))))))) \<and>
   clients (fst (leave 3 False True (fst (join 3 [Data ''Dave'']
          (room open_sock open_sock open_sock))))) =
     [(0, ''Alice''), (1, ''Bob''), (2, ''Carol''), (3, ''Dave'')] \<and>
   snd (handler 3 [Data ''Dave'', RecvErr 110] (room open_sock open_sock open_sock)) =
     ([], Raise (OSError 110)) \<and>
   handle 3 [Data ''Dave'', RecvErr 110] (room open_sock open_sock open_sock) =
     handler 3 [Data ''Dave'', RecvErr 110] (room open_sock open_sock open_sock)"
proof -
  let ?s = "room open_sock open_sock open_sock"
  let ?j = "fst (join 3 [Data ''Dave''] ?s)"
  let ?script = "[Data ''Dave'', RecvErr 110]"
  have h1: "3 \<notin> set (map fst (clients ?s))" by (simp add: room_open_simps)
  have j: "snd (snd (join 3 [Data ''Dave''] ?s)) = Ret ()"
    by (simp add: run_defs)
  have cj: "clients ?j = [(0, ''Alice''), (1, ''Bob''), (2, ''Carol''), (3, ''Dave'')]"
    by (simp add: run_defs)
  have h2: "snd (leave 3 True True ?j) = Ret ()"
    by (simp add: run_defs)
  have r: "snd (handler 3 ?script ?s) = ([], Raise (OSError 110))"
    by (simp add: run_defs handler_loop.simps)
  then have h4: "handler 3 ?script ?s = (fst (handler 3 ?script ?s), [], Raise (OSError 110)) \<and>
      110 \<noteq> EPIPE \<and> (110::nat) \<noteq> 9"
    by (simp add: prod_eq_iff EPIPE_def)
  from registry_entry_lifecycle [where c = 3 and s = ?s and script = "[Data ''Dave'']"
      and gone = True and t = ?j and u = ?j and script' = ?script and v = ?s
      and ?v1.0 = "fst (handler 3 ?script ?s)" and rest' = "[]" and e = 110]
    h1 j h2 h4 r cj
  show ?thesis by (auto split: prod.splits)
qed

subsection \<open>Shutdown\<close>

lemma swept_simps [simp]:
  "\<not> chat (swept cl)"
  "name (swept cl) = name cl"
  "sent (socket (swept cl)) = sent (socket cl) @ [clear @ farewell]"
  "shutdown_err (socket cl) = None \<Longrightarrow> is_closed (socket (swept cl))"
  by (simp_all add: swept_def Let_def sock_close_def frame_def)




lemma close_simps [simp]:
  "server_closed (close s)" "clients (close s) = clients s" "objs (close s) = objs s"
  "is_running (close s) = is_running s"
  by (simp_all add: close_def)








end
